theory Spec2Isabelle
  imports Complex_Main
begin

section \<open>The leaky-bucket rate limiter (async\_jaeger/rate\_limiter.py)\<close>

text \<open>
  The class \<^verbatim>\<open>RateLimiter\<close> has four float attributes. Python floats are modelled
  by \<^typ>\<open>real\<close>. In this first model arithmetic is exact; the model of the section on
  rounded arithmetic below rounds the result of every operation, as the code's doubles
  do. Infinities and NaN are outside both. The two reads of the environment are made parameters: \<open>u\<close> is the value that
  \<^verbatim>\<open>random.random()\<close> returned (the library promises \<open>0 \<le> u < 1\<close>), and
  \<open>current_time\<close> is the value that \<^verbatim>\<open>self.timestamp()\<close> (that is,
  \<^verbatim>\<open>time.time()\<close>) returned inside the call.
\<close>

record RateLimiter =
  credits_per_second :: real
  max_balance :: real
  balance :: real
  last_tick :: real

text \<open>
  Float division by zero raises \<^verbatim>\<open>ZeroDivisionError\<close> in Python; it is the only
  exception the class can raise on float arguments. A method that raises leaves the object
  as mutated so far, so the error carries that state.
\<close>

datatype py_error = ZeroDivisionError

type_synonym raised = "py_error \<times> RateLimiter"

text \<open>\<^verbatim>\<open>__init__(self, credits_per_second, max_balance)\<close>, lines 26-30.\<close>

definition RateLimiter_init :: "real \<Rightarrow> real \<Rightarrow> real \<Rightarrow> real \<Rightarrow> RateLimiter" where
  "RateLimiter_init cps mb u current_time =
     \<lparr> credits_per_second = cps,
       max_balance = mb,
       balance = mb * u,
       last_tick = current_time \<rparr>"

text \<open>\<^verbatim>\<open>_update_balance(self)\<close>, lines 50-56.\<close>

definition update_balance :: "real \<Rightarrow> RateLimiter \<Rightarrow> RateLimiter" where
  "update_balance current_time s =
     (let elapsed_time = current_time - last_tick s;
          s1 = s\<lparr>last_tick := current_time\<rparr>;
          s2 = s1\<lparr>balance := balance s1 + elapsed_time * credits_per_second s1\<rparr>
      in if balance s2 > max_balance s2 then s2\<lparr>balance := max_balance s2\<rparr> else s2)"

text \<open>
  \<^verbatim>\<open>update(self, credits_per_second, max_balance)\<close>, lines 36-41. The division
  on line 40 raises when the old \<^verbatim>\<open>self.max_balance\<close> is zero; lines 37 and 38
  have run by then.
\<close>

definition update :: "real \<Rightarrow> real \<Rightarrow> real \<Rightarrow> RateLimiter \<Rightarrow> raised + RateLimiter" where
  "update current_time cps mb s =
     (let s1 = update_balance current_time s;
          s2 = s1\<lparr>credits_per_second := cps\<rparr>
      in if max_balance s2 = 0 then Inl (ZeroDivisionError, s2)
         else Inr (s2\<lparr>balance := mb * balance s2 / max_balance s2, max_balance := mb\<rparr>))"

text \<open>
  \<^verbatim>\<open>check_credit(self, item_cost)\<close>, lines 43-48: the returned boolean and the
  object after the call.
\<close>

definition check_credit :: "real \<Rightarrow> real \<Rightarrow> RateLimiter \<Rightarrow> bool \<times> RateLimiter" where
  "check_credit current_time item_cost s =
     (let s1 = update_balance current_time s
      in if balance s1 \<ge> item_cost then (True, s1\<lparr>balance := balance s1 - item_cost\<rparr>)
         else (False, s1))"

subsection \<open>Sequences of calls\<close>

text \<open>
  A caller's call together with the time the call reads from the clock. Nothing in the
  code orders the clock readings or restricts the arguments.
\<close>

datatype call = CheckCredit real | Update real real

fun perform :: "RateLimiter \<Rightarrow> real \<times> call \<Rightarrow> raised + RateLimiter" where
  "perform s (t, CheckCredit item_cost) = Inr (snd (check_credit t item_cost s))"
| "perform s (t, Update cps mb) = update t cps mb s"

text \<open>The object after a call, whether the call returned or raised.\<close>

fun state_after :: "raised + RateLimiter \<Rightarrow> RateLimiter" where
  "state_after (Inl (e, s)) = s"
| "state_after (Inr s) = s"

text \<open>
  The states a reader of the object sees: after construction and after each call (a
  caller that catches the exception goes on with the object as the raise left it).
\<close>

fun observations :: "RateLimiter \<Rightarrow> (real \<times> call) list \<Rightarrow> RateLimiter list" where
  "observations s [] = [s]"
| "observations s (c # cs) = s # observations (state_after (perform s c)) cs"

text \<open>A sequence of calls as one program: the first exception ends it.\<close>

fun run :: "RateLimiter \<Rightarrow> (real \<times> call) list \<Rightarrow> raised + RateLimiter" where
  "run s [] = Inr s"
| "run s (c # cs) = (case perform s c of Inl e \<Rightarrow> Inl e | Inr s' \<Rightarrow> run s' cs)"

subsection \<open>Preconditions on a sequence of calls\<close>

text \<open>
  The configuration precondition of the spec: every \<open>update\<close> receives a positive rate
  and a positive maximal balance.
\<close>

fun config_ok :: "real \<times> call \<Rightarrow> bool" where
  "config_ok (t, CheckCredit item_cost) = True"
| "config_ok (t, Update cps mb) = (0 < cps \<and> 0 < mb)"

text \<open>
  A well-behaved environment: the clock never reads less than the last tick, no cost is
  negative, and no \<open>update\<close> receives a negative rate or maximal balance.
\<close>

fun admissible :: "real \<Rightarrow> (real \<times> call) list \<Rightarrow> bool" where
  "admissible t0 [] = True"
| "admissible t0 ((t, CheckCredit item_cost) # cs) =
     (t0 \<le> t \<and> 0 \<le> item_cost \<and> admissible t cs)"
| "admissible t0 ((t, Update cps mb) # cs) =
     (t0 \<le> t \<and> 0 \<le> cps \<and> 0 \<le> mb \<and> admissible t cs)"

subsection \<open>Example states\<close>

text \<open>
  A limiter constructed at time 0 with rate 1 and maximal balance 1, where
  \<^verbatim>\<open>random.random()\<close> returned 1/2.
\<close>

definition half_full :: RateLimiter where
  "half_full = RateLimiter_init 1 1 (1/2) 0"

text \<open>The same limiter after \<^verbatim>\<open>check_credit(-1.5)\<close>, still at time 0.\<close>

definition over_full :: RateLimiter where
  "over_full = snd (check_credit 0 (- 3/2) half_full)"

subsection \<open>The balance bound\<close>

definition bounded :: "RateLimiter \<Rightarrow> bool" where
  "bounded s \<longleftrightarrow> 0 \<le> balance s \<and> balance s \<le> max_balance s"

section \<open>The rate limiter in rounded arithmetic\<close>

text \<open>
  Every arithmetic operation of the code is an operation on doubles: it returns the exact
  result rounded to a double. The definitions of this section are those of the first
  section with the rounding \<open>rnd\<close> applied where the code computes: once on line 29
  and on line 46, twice on lines 40 and 54 (a product, then a quotient or a sum), once on
  line 52. Comparisons and assignments do not round. With the identity for \<open>rnd\<close> they
  are the definitions of the first section.
\<close>

definition RateLimiter_init_fl ::
  "(real \<Rightarrow> real) \<Rightarrow> real \<Rightarrow> real \<Rightarrow> real \<Rightarrow> real \<Rightarrow> RateLimiter" where
  "RateLimiter_init_fl rnd cps mb u current_time =
     \<lparr> credits_per_second = cps,
       max_balance = mb,
       balance = rnd (mb * u),
       last_tick = current_time \<rparr>"

definition update_balance_fl :: "(real \<Rightarrow> real) \<Rightarrow> real \<Rightarrow> RateLimiter \<Rightarrow> RateLimiter" where
  "update_balance_fl rnd current_time s =
     (let elapsed_time = rnd (current_time - last_tick s);
          s1 = s\<lparr>last_tick := current_time\<rparr>;
          s2 = s1\<lparr>balance := rnd (balance s1 + rnd (elapsed_time * credits_per_second s1))\<rparr>
      in if balance s2 > max_balance s2 then s2\<lparr>balance := max_balance s2\<rparr> else s2)"

definition update_fl ::
  "(real \<Rightarrow> real) \<Rightarrow> real \<Rightarrow> real \<Rightarrow> real \<Rightarrow> RateLimiter \<Rightarrow> raised + RateLimiter" where
  "update_fl rnd current_time cps mb s =
     (let s1 = update_balance_fl rnd current_time s;
          s2 = s1\<lparr>credits_per_second := cps\<rparr>
      in if max_balance s2 = 0 then Inl (ZeroDivisionError, s2)
         else Inr (s2\<lparr>balance := rnd (rnd (mb * balance s2) / max_balance s2),
                      max_balance := mb\<rparr>))"

definition check_credit_fl ::
  "(real \<Rightarrow> real) \<Rightarrow> real \<Rightarrow> real \<Rightarrow> RateLimiter \<Rightarrow> bool \<times> RateLimiter" where
  "check_credit_fl rnd current_time item_cost s =
     (let s1 = update_balance_fl rnd current_time s
      in if balance s1 \<ge> item_cost then (True, s1\<lparr>balance := rnd (balance s1 - item_cost)\<rparr>)
         else (False, s1))"

fun perform_fl :: "(real \<Rightarrow> real) \<Rightarrow> RateLimiter \<Rightarrow> real \<times> call \<Rightarrow> raised + RateLimiter" where
  "perform_fl rnd s (t, CheckCredit item_cost) = Inr (snd (check_credit_fl rnd t item_cost s))"
| "perform_fl rnd s (t, Update cps mb) = update_fl rnd t cps mb s"

text \<open>The object after each call of a sequence, with the call that left it.\<close>

fun after_calls ::
  "(real \<Rightarrow> real) \<Rightarrow> RateLimiter \<Rightarrow> (real \<times> call) list \<Rightarrow> (call \<times> RateLimiter) list" where
  "after_calls rnd s [] = []"
| "after_calls rnd s ((t, c) # cs) =
     (c, state_after (perform_fl rnd s (t, c)))
       # after_calls rnd (state_after (perform_fl rnd s (t, c))) cs"

fun run_fl :: "(real \<Rightarrow> real) \<Rightarrow> RateLimiter \<Rightarrow> (real \<times> call) list \<Rightarrow> raised + RateLimiter" where
  "run_fl rnd s [] = Inr s"
| "run_fl rnd s (c # cs) =
     (case perform_fl rnd s c of Inl e \<Rightarrow> Inl e | Inr s' \<Rightarrow> run_fl rnd s' cs)"

fun is_check_credit :: "call \<Rightarrow> bool" where
  "is_check_credit (CheckCredit item_cost) = True"
| "is_check_credit (Update cps mb) = False"

subsection \<open>What the proofs use of a rounding\<close>

text \<open>
  Zero is a float, rounding is monotone, and a rounded value is a float (rounding it again
  changes nothing). Rounding to nearest has these properties.
\<close>

definition rounding :: "(real \<Rightarrow> real) \<Rightarrow> bool" where
  "rounding rnd \<longleftrightarrow>
     rnd 0 = 0 \<and> (\<forall>x y. x \<le> y \<longrightarrow> rnd x \<le> rnd y) \<and> (\<forall>x. rnd (rnd x) = rnd x)"

text \<open>The numbers the object holds, and the numbers a call brings, are floats.\<close>

definition float_state :: "(real \<Rightarrow> real) \<Rightarrow> RateLimiter \<Rightarrow> bool" where
  "float_state rnd s \<longleftrightarrow>
     rnd (credits_per_second s) = credits_per_second s \<and> rnd (max_balance s) = max_balance s
     \<and> rnd (balance s) = balance s \<and> rnd (last_tick s) = last_tick s"

fun float_call :: "(real \<Rightarrow> real) \<Rightarrow> real \<times> call \<Rightarrow> bool" where
  "float_call rnd (t, CheckCredit item_cost) = (rnd t = t \<and> rnd item_cost = item_cost)"
| "float_call rnd (t, Update cps mb) = (rnd t = t \<and> rnd cps = cps \<and> rnd mb = mb)"

text \<open>What every call keeps in a well-behaved environment.\<close>

definition inv_fl :: "(real \<Rightarrow> real) \<Rightarrow> RateLimiter \<Rightarrow> bool" where
  "inv_fl rnd s \<longleftrightarrow> 0 \<le> balance s \<and> 0 \<le> max_balance s \<and> 0 \<le> credits_per_second s
     \<and> rnd (balance s) = balance s \<and> rnd (max_balance s) = max_balance s"

subsection \<open>The rounding of Python's floats\<close>

text \<open>
  A Python float is an IEEE 754 binary64 number, and the result of an operation is
  rounded to nearest, ties to even: the exact result \<open>x\<close> with
  \<open>2 ^ e \<le> \<bar>x\<bar> < 2 ^ (e + 1)\<close> becomes the nearest multiple of \<open>2 ^ (e - 52)\<close>, and of two
  nearest ones the even multiple. The exponent is not bounded here: overflow to infinity
  and the subnormal range (magnitudes above about \<open>1.8e308\<close> and below about
  \<open>2.2e-308\<close>) are outside the model.
\<close>

definition pow2 :: "int \<Rightarrow> real" where
  "pow2 e = (if 0 \<le> e then 2 ^ nat e else 1 / 2 ^ nat (- e))"

definition round_half_even :: "real \<Rightarrow> int" where
  "round_half_even y =
     (let f = \<lfloor>y\<rfloor>; d = y - of_int f
      in if d < 1/2 then f else if 1/2 < d then f + 1 else if even f then f else f + 1)"

definition binary64 :: "real \<Rightarrow> real" where
  "binary64 x =
     (if x = 0 then 0
      else let e = \<lfloor>log 2 \<bar>x\<bar>\<rfloor> - 52
           in of_int (round_half_even (x / pow2 e)) * pow2 e)"

text \<open>The doubles that Python reads from the literals \<^verbatim>\<open>0.1\<close> and \<^verbatim>\<open>0.3\<close>.\<close>

definition tenth :: real where
  "tenth = 3602879701896397 / 36028797018963968"

definition three_tenths :: real where
  "three_tenths = 5404319552844595 / 18014398509481984"

section \<open>The reporters\<close>

text \<open>
  The module \<^verbatim>\<open>async_jaeger.reporter\<close> is exercised by tests/test\_reporter.py but is
  not among the sources. What the claims about it need is modelled from the spec's
  sections 3, 4.2, 4.3, 4.5 and 6.
\<close>

subsection \<open>The batching reporter\<close>

text \<open>
  Modelled from the spec: the reporter state of section 3, "one of Open, Closing, Closed";
  the class that holds it is missing from the sources.
\<close>

datatype reporter_state = Open | Closing | Closed

text \<open>
  Modelled from the spec: the queue of section 3, a bounded FIFO of spans with its
  capacity and its count of items submitted but not yet fully processed; the queue class
  is missing from the sources.
\<close>

record 'span BoundedSpanQueue =
  items :: "'span list"
  capacity :: nat
  outstanding :: nat

text \<open>
  Modelled from the spec: \<open>try_enqueue(item) -> bool\<close> of section 4.2, which is missing
  from the sources: "non-blocking; returns false immediately if the queue is at capacity".
\<close>

definition try_enqueue :: "'span \<Rightarrow> 'span BoundedSpanQueue \<Rightarrow> bool \<times> 'span BoundedSpanQueue" where
  "try_enqueue item q =
     (if capacity q \<le> length (items q) then (False, q)
      else (True, q\<lparr>items := items q @ [item], outstanding := outstanding q + 1\<rparr>))"

text \<open>
  Modelled from the spec: the batching reporter of section 4.3, missing from the sources,
  as far as \<open>report_span\<close> reads or writes it: its state, its queue, the pending batch
  of the consumer, and the three counters of section 6
  (\<^verbatim>\<open>reporter_spans.result_dropped\<close>, \<^verbatim>\<open>result_ok\<close>, \<^verbatim>\<open>result_err\<close>),
  each as the number of increments emitted so far.
\<close>

record 'span BatchingReporter =
  state :: reporter_state
  queue :: "'span BoundedSpanQueue"
  pending_batch :: "'span list"
  result_dropped :: nat
  result_ok :: nat
  result_err :: nat

text \<open>
  Modelled from the spec: \<open>report_span(span)\<close> of section 4.3, missing from the sources:
  "if state is Closed, immediately emits the dropped counter and returns. Otherwise
  attempts try\_enqueue; on failure (queue full) emits the dropped counter; never blocks
  the caller". The operation returns nothing and the spec gives it no way to raise, so its
  result is the reporter after the call. (The paragraph on \<open>close\<close> adds that a closing
  reporter drops as well; the sentence on \<open>report_span\<close> itself is followed here, and
  the two agree on a closed reporter and on a full queue.)
\<close>

definition report_span :: "'span \<Rightarrow> 'span BatchingReporter \<Rightarrow> 'span BatchingReporter" where
  "report_span sp r =
     (if state r = Closed then r\<lparr>result_dropped := result_dropped r + 1\<rparr>
      else (let (accepted, q) = try_enqueue sp (queue r)
            in if accepted then r\<lparr>queue := q\<rparr>
               else r\<lparr>result_dropped := result_dropped r + 1\<rparr>))"

subsection \<open>The composite reporter\<close>

text \<open>
  Modelled from the spec: the reporter capability of section 6, whose implementations are
  missing from the sources. A child reporter is the three operations it offers; \<open>'w\<close> is
  whatever the children's observable side effects act on. What \<open>close\<close> does at once is
  \<open>close_op\<close>; the completion it returns settles later.
\<close>

record ('w, 'span) Reporter =
  set_process_op :: "string \<Rightarrow> (string \<times> string) list \<Rightarrow> nat \<Rightarrow> 'w \<Rightarrow> 'w"
  report_span_op :: "'span \<Rightarrow> 'w \<Rightarrow> 'w"
  close_op :: "'w \<Rightarrow> 'w"

text \<open>
  Modelled from the spec: \<open>CompositeReporter.set_process\<close> of section 4.5, missing from
  the sources: it calls "the same operation on every child, synchronously, in order".
\<close>

fun composite_set_process ::
  "('w, 'span) Reporter list \<Rightarrow> string \<Rightarrow> (string \<times> string) list \<Rightarrow> nat \<Rightarrow> 'w \<Rightarrow> 'w" where
  "composite_set_process [] service_name tags max_length w = w"
| "composite_set_process (r # rs) service_name tags max_length w =
     composite_set_process rs service_name tags max_length
       (set_process_op r service_name tags max_length w)"

text \<open>
  Modelled from the spec: \<open>CompositeReporter.report_span\<close> of section 4.5, missing from
  the sources, the same loop over the children.
\<close>

fun composite_report_span :: "('w, 'span) Reporter list \<Rightarrow> 'span \<Rightarrow> 'w \<Rightarrow> 'w" where
  "composite_report_span [] sp w = w"
| "composite_report_span (r # rs) sp w = composite_report_span rs sp (report_span_op r sp w)"

text \<open>
  Modelled from the spec: what \<open>CompositeReporter.close\<close> of section 4.5, missing from
  the sources, does before it returns: it "invokes close() on every child".
\<close>

fun composite_close :: "('w, 'span) Reporter list \<Rightarrow> 'w \<Rightarrow> 'w" where
  "composite_close [] w = w"
| "composite_close (r # rs) w = composite_close rs (close_op r w)"

text \<open>
  Modelled from the spec: a completion (the result type of \<open>close\<close> in section 6), whose
  implementation is missing from the sources: pending, or settled as resolved or failed.
\<close>

datatype completion = Pending | Resolved | Failed

text \<open>
  Modelled from the spec: the completion that \<open>CompositeReporter.close\<close> returns
  (section 4.5, missing from the sources), as a function of the children's completions:
  it "resolves only when all child completions resolve", and then "with failure
  captured/aggregated" (section 8).
\<close>

definition joined :: "completion list \<Rightarrow> completion" where
  "joined cs = (if Pending \<in> set cs then Pending
                else if Failed \<in> set cs then Failed else Resolved)"

text \<open>
  Modelled from the spec: the event that the completion of child \<open>i\<close> settles with
  outcome \<open>c\<close>; completions are missing from the sources. A completion settles once.
\<close>

fun settle :: "completion list \<Rightarrow> nat \<times> completion \<Rightarrow> completion list" where
  "settle cs (i, c) = (if i < length cs \<and> cs ! i = Pending then cs[i := c] else cs)"

text \<open>
  The calls a child can receive, and a child that only records, under its index, the calls
  it does receive: the mocks of \<^verbatim>\<open>test_composite_reporter\<close>
  (tests/test\_reporter.py, lines 251-286).
\<close>

datatype 'span invocation =
  SetProcessCalled string "(string \<times> string) list" nat
| ReportSpanCalled 'span
| CloseCalled

definition recorder :: "nat \<Rightarrow> ((nat \<times> 'span invocation) list, 'span) Reporter" where
  "recorder i =
     \<lparr> set_process_op = (\<lambda>service_name tags max_length w.
          w @ [(i, SetProcessCalled service_name tags max_length)]),
       report_span_op = (\<lambda>sp w. w @ [(i, ReportSpanCalled sp)]),
       close_op = (\<lambda>w. w @ [(i, CloseCalled)]) \<rparr>"

section \<open>Properties of the rate limiter\<close>

subsection \<open>Replenishing\<close>

lemma update_balance_eq:
  "update_balance t s =
     s\<lparr>last_tick := t,
       balance := min (balance s + (t - last_tick s) * credits_per_second s) (max_balance s)\<rparr>"
  by (simp add: update_balance_def Let_def min_def)

lemma update_balance_fields [simp]:
  "last_tick (update_balance t s) = t"
  "max_balance (update_balance t s) = max_balance s"
  "credits_per_second (update_balance t s) = credits_per_second s"
  by (simp_all add: update_balance_eq)

lemma balance_update_balance:
  "balance (update_balance t s) =
     min (balance s + (t - last_tick s) * credits_per_second s) (max_balance s)"
  by (simp add: update_balance_eq)

text \<open>
  C1. A call \<open>check_credit(c)\<close> that reads the time \<open>t\<close> replenishes the balance to
  \<open>min (b + (t - t0) * r) m\<close> and sets the last tick to \<open>t\<close>; it returns true and
  subtracts \<open>c\<close> exactly when the replenished balance is at least \<open>c\<close>, and otherwise
  returns false and keeps the replenished balance. So the call grants iff
  \<open>min (b + r * (t - t0)) m \<ge> c\<close>.
\<close>

theorem check_credit_spec:
  "check_credit t c s =
     (let b' = min (balance s + (t - last_tick s) * credits_per_second s) (max_balance s)
      in if b' \<ge> c then (True, s\<lparr>last_tick := t, balance := b' - c\<rparr>)
         else (False, s\<lparr>last_tick := t, balance := b'\<rparr>))
   \<and> (fst (check_credit t c s) \<longleftrightarrow>
        min (balance s + credits_per_second s * (t - last_tick s)) (max_balance s) \<ge> c)"
  by (simp add: check_credit_def update_balance_eq Let_def mult.commute)

subsection \<open>The constructor\<close>

text \<open>
  C7. The constructor stores the given rate and maximal balance, sets the last tick to the
  current time and the balance to \<open>max_balance * u\<close>, where \<open>u\<close> is what
  \<^verbatim>\<open>random.random()\<close> returned. For every \<open>u\<close> in \<open>[0, 1)\<close> and every
  \<open>max_balance > 0\<close> the initial balance lies in \<open>[0, max_balance)\<close>.
\<close>

theorem RateLimiter_init_spec:
  "RateLimiter_init cps mb u now =
     \<lparr>credits_per_second = cps, max_balance = mb, balance = mb * u, last_tick = now\<rparr>
   \<and> (0 \<le> u \<and> u < 1 \<and> 0 < mb \<longrightarrow>
        0 \<le> balance (RateLimiter_init cps mb u now) \<and> balance (RateLimiter_init cps mb u now) < mb)"
  by (simp add: RateLimiter_init_def)

theorem RateLimiter_init_spec_witness:
  "(0::real) \<le> 3/4 \<and> (3/4::real) < 1 \<and> (0::real) < 8
   \<and> RateLimiter_init 2 8 (3/4) 5 = \<lparr>credits_per_second = 2, max_balance = 8, balance = 6, last_tick = 5\<rparr>
   \<and> 0 \<le> balance (RateLimiter_init 2 8 (3/4) 5) \<and> balance (RateLimiter_init 2 8 (3/4) 5) < 8"
  using RateLimiter_init_spec [of 2 8 "3/4" 5]
  by simp

subsection \<open>Rescaling by update\<close>

lemma over_full_eq:
  "over_full = \<lparr>credits_per_second = 1, max_balance = 1, balance = 2, last_tick = 0\<rparr>"
  by (simp add: over_full_def half_full_def RateLimiter_init_def check_credit_def
      update_balance_eq Let_def)

lemma update_Inr:
  assumes "max_balance s \<noteq> 0"
  shows "update t cps mb s =
           Inr \<lparr>credits_per_second = cps, max_balance = mb,
                balance = mb * balance (update_balance t s) / max_balance s,
                last_tick = t\<rparr>"
  using assms by (simp add: update_def Let_def update_balance_eq)

lemma fill_le:
  assumes "b \<le> m1" "0 < m1" "0 \<le> (m2::real)"
  shows "m2 * b / m1 \<le> m2"
proof -
  have "b / m1 \<le> 1" using assms by (simp add: divide_le_eq)
  then have "m2 * (b / m1) \<le> m2 * 1" using assms by (intro mult_left_mono) auto
  then show ?thesis by simp
qed

lemma update_balance_same_tick:
  assumes "balance s \<le> max_balance s"
  shows "update_balance (last_tick s) s = s"
  using assms by (simp add: update_balance_eq)

lemma balance_update_balance_le: "balance (update_balance t s) \<le> max_balance s"
  by (simp add: balance_update_balance)

text \<open>
  C3, as amended. When the old maximal balance \<open>m1\<close> is not zero, \<open>update(r2, m2)\<close>
  replenishes the balance by the same \<open>_update_balance\<close> as \<open>check_credit\<close> does, then
  sets the balance to \<open>m2 * b / m1\<close> for the replenished balance \<open>b\<close>, the rate to
  \<open>r2\<close> and the maximal balance to \<open>m2\<close>. When moreover no time has elapsed since the
  last tick and the balance before the call is at most \<open>m1\<close>, the balance after the call
  is \<open>m2 * balance_before / m1\<close>.
\<close>

theorem update_spec:
  assumes "max_balance s \<noteq> 0"
  shows "update t r2 m2 s =
           Inr ((update_balance t s)\<lparr>credits_per_second := r2,
                  balance := m2 * balance (update_balance t s) / max_balance s,
                  max_balance := m2\<rparr>)
         \<and> snd (check_credit t c s) =
             (update_balance t s)\<lparr>balance :=
                (if c \<le> balance (update_balance t s) then balance (update_balance t s) - c
                 else balance (update_balance t s))\<rparr>
         \<and> (t = last_tick s \<and> balance s \<le> max_balance s \<longrightarrow>
              balance (state_after (update t r2 m2 s)) = m2 * balance s / max_balance s)"
  using assms
  by (simp add: update_def check_credit_def Let_def balance_update_balance)

theorem update_spec_witness:
  "max_balance half_full \<noteq> 0 \<and> 0 = last_tick half_full \<and> balance half_full \<le> max_balance half_full
   \<and> update 0 3 4 half_full = Inr \<lparr>credits_per_second = 3, max_balance = 4, balance = 2, last_tick = 0\<rparr>
   \<and> balance (state_after (update 0 3 4 half_full)) = 4 * balance half_full / max_balance half_full"
  using update_spec [of half_full 0 3 4 0]
  by (simp add: half_full_def RateLimiter_init_def update_balance_eq)

text \<open>
  Without the bound on the balance the last part fails. The limiter \<open>over_full\<close> has
  balance 2 above its maximal balance 1 (a negative cost was granted). With no time
  elapsed, \<open>update(1, 2)\<close> first clamps the balance to 1 and leaves the balance
  \<open>2 * 1 / 1 = 2\<close>, not \<open>2 * 2 / 1 = 4\<close>.
\<close>

theorem update_counterexample:
  "last_tick over_full = 0 \<and> balance over_full = 2 \<and> max_balance over_full = 1
   \<and> update 0 1 2 over_full = Inr \<lparr>credits_per_second = 1, max_balance = 2, balance = 2, last_tick = 0\<rparr>
   \<and> balance (state_after (update 0 1 2 over_full)) \<noteq> 2 * balance over_full / max_balance over_full"
  by (simp add: over_full_eq update_def update_balance_eq Let_def)

subsection \<open>What the code does not guard against\<close>

lemma earlier_reading_negative:
  assumes "0 < credits_per_second s" "0 \<le> c"
  shows "\<exists>t<last_tick s. balance (snd (check_credit t c s)) < 0"
proof -
  define t where "t = last_tick s - (\<bar>balance s\<bar> + 1) / credits_per_second s"
  have "0 < (\<bar>balance s\<bar> + 1) / credits_per_second s"
    using assms(1) by simp
  then have lt: "t < last_tick s" by (simp add: t_def)
  have "(t - last_tick s) * credits_per_second s = - (\<bar>balance s\<bar> + 1)"
    using assms(1) by (simp add: t_def)
  then have neg: "balance s + (t - last_tick s) * credits_per_second s < 0"
    by simp
  then have "balance (update_balance t s) < 0"
    by (simp add: balance_update_balance min_less_iff_disj)
  then have "balance (snd (check_credit t c s)) < 0"
    using assms(2) by (simp add: check_credit_def Let_def)
  with lt show ?thesis by blast
qed

text \<open>
  C6. \<open>_update_balance\<close> adds \<open>(current_time - last_tick) * credits_per_second\<close>
  whatever the sign of the elapsed time, and clamps the balance from above only. So for
  every limiter with a positive rate and every cost that is not negative, some clock
  reading before the last tick makes a single \<open>check_credit\<close> leave a negative balance.
  An instance: a limiter constructed at time 0 with rate 1, maximal balance 1 and balance
  1/2; \<open>check_credit(1)\<close> at time 10 is granted and leaves the balance 0; then
  \<open>check_credit(1)\<close> reads the time 8, is refused and leaves the balance -2.
\<close>

theorem backward_clock:
  "update_balance t s =
     s\<lparr>last_tick := t,
       balance := min (balance s + (t - last_tick s) * credits_per_second s) (max_balance s)\<rparr>
   \<and> (0 < credits_per_second s \<and> 0 \<le> c \<longrightarrow>
        (\<exists>t'<last_tick s. balance (snd (check_credit t' c s)) < 0))
   \<and> snd (check_credit 10 1 half_full) =
       \<lparr>credits_per_second = 1, max_balance = 1, balance = 0, last_tick = 10\<rparr>
   \<and> check_credit 8 1 (snd (check_credit 10 1 half_full)) =
       (False, \<lparr>credits_per_second = 1, max_balance = 1, balance = - 2, last_tick = 8\<rparr>)
   \<and> balance (snd (check_credit 8 1 (snd (check_credit 10 1 half_full)))) < 0"
proof -
  have "0 < credits_per_second s \<and> 0 \<le> c \<longrightarrow>
        (\<exists>t'<last_tick s. balance (snd (check_credit t' c s)) < 0)"
    using earlier_reading_negative [of s c] by blast
  moreover have "update_balance t s =
     s\<lparr>last_tick := t,
       balance := min (balance s + (t - last_tick s) * credits_per_second s) (max_balance s)\<rparr>"
    by (rule update_balance_eq)
  moreover have "check_credit 8 1 (snd (check_credit 10 1 half_full)) =
       (False, \<lparr>credits_per_second = 1, max_balance = 1, balance = - 2, last_tick = 8\<rparr>)"
    by (simp add: update_balance_eq half_full_def RateLimiter_init_def check_credit_def Let_def)
  moreover have "snd (check_credit 10 1 half_full) =
       \<lparr>credits_per_second = 1, max_balance = 1, balance = 0, last_tick = 10\<rparr>"
    by (simp add: update_balance_eq half_full_def RateLimiter_init_def check_credit_def Let_def)
  ultimately show ?thesis by simp
qed

theorem backward_clock_witness:
  "0 < credits_per_second half_full \<and> (0::real) \<le> 1
   \<and> (\<exists>t'<last_tick half_full. balance (snd (check_credit t' 1 half_full)) < 0)"
  using backward_clock [of 0 half_full 1]
  by (simp add: half_full_def RateLimiter_init_def)

text \<open>
  C9. \<open>check_credit\<close> accepts a negative cost: whenever the replenished balance \<open>b\<close> is
  at least a cost \<open>item_cost < 0\<close>, the call returns true and leaves the balance
  \<open>b - item_cost > b\<close>, with no clamp after the subtraction. So for every state and time
  there is a negative cost that is granted and leaves the balance above the maximal
  balance.
\<close>

theorem negative_cost:
  "(item_cost < 0 \<and> item_cost \<le> balance (update_balance t s) \<longrightarrow>
      check_credit t item_cost s =
        (True, (update_balance t s)\<lparr>balance := balance (update_balance t s) - item_cost\<rparr>)
      \<and> balance (snd (check_credit t item_cost s)) > balance (update_balance t s))
   \<and> (\<exists>c<0. fst (check_credit t c s)
          \<and> balance (snd (check_credit t c s)) > max_balance (snd (check_credit t c s)))"
proof -
  define b where "b = balance (update_balance t s)"
  define c where "c = - (\<bar>b\<bar> + \<bar>max_balance s\<bar> + 1)"
  have c: "c < 0" "c \<le> b" "b - c > max_balance s"
    by (simp_all add: c_def)
  then have "fst (check_credit t c s)
      \<and> balance (snd (check_credit t c s)) > max_balance (snd (check_credit t c s))"
    by (simp add: check_credit_def Let_def b_def)
  with c(1) have "\<exists>c<0. fst (check_credit t c s)
          \<and> balance (snd (check_credit t c s)) > max_balance (snd (check_credit t c s))"
    by blast
  then show ?thesis
    by (simp add: check_credit_def Let_def)
qed

theorem negative_cost_witness:
  "(- 1 :: real) < 0 \<and> - 1 \<le> balance (update_balance 0 half_full)
   \<and> check_credit 0 (- 1) half_full =
        (True, \<lparr>credits_per_second = 1, max_balance = 1, balance = 3/2, last_tick = 0\<rparr>)
   \<and> balance (snd (check_credit 0 (- 1) half_full)) > balance (update_balance 0 half_full)
   \<and> balance (snd (check_credit 0 (- 1) half_full)) > max_balance (snd (check_credit 0 (- 1) half_full))"
  using negative_cost [of "- 1" 0 half_full]
  by (simp add: half_full_def RateLimiter_init_def update_balance_eq check_credit_def Let_def)

subsection \<open>No error under the configuration precondition\<close>

lemma perform_config:
  assumes "0 < max_balance s" "config_ok c"
  shows "\<exists>s'. perform s c = Inr s' \<and> 0 < max_balance s'"
proof (cases c)
  case (Pair t k)
  then show ?thesis
    using assms by (cases k) (simp_all add: check_credit_def update_def Let_def)
qed

lemma run_config:
  assumes "0 < max_balance s" "\<forall>c \<in> set calls. config_ok c"
  shows "(\<exists>s'. run s calls = Inr s' \<and> 0 < max_balance s')
       \<and> (\<forall>s' \<in> set (observations s calls). 0 < max_balance s')"
  using assms
proof (induction calls arbitrary: s)
  case Nil
  then show ?case by simp
next
  case (Cons c cs)
  from Cons.prems obtain s1 where s1: "perform s c = Inr s1" "0 < max_balance s1"
    using perform_config [of s c] by auto
  from Cons.IH [OF s1(2)] Cons.prems(2)
  have "(\<exists>s'. run s1 cs = Inr s' \<and> 0 < max_balance s')
       \<and> (\<forall>s' \<in> set (observations s1 cs). 0 < max_balance s')"
    by simp
  with s1 Cons.prems(1) show ?case by simp
qed

text \<open>
  C8. When the constructor and every \<open>update\<close> receive a positive rate and a positive
  maximal balance, no call of a sequence raises, whatever the costs and the clock
  readings: the sequence runs to its end, and the maximal balance that \<open>update\<close> divides
  by is positive at every point.
\<close>

theorem configured_calls_raise_no_error:
  assumes "0 < cps" "0 < mb" "\<forall>c \<in> set calls. config_ok c"
  shows "(\<exists>s'. run (RateLimiter_init cps mb u now) calls = Inr s')
       \<and> (\<forall>s \<in> set (observations (RateLimiter_init cps mb u now) calls). 0 < max_balance s)"
proof -
  have "0 < max_balance (RateLimiter_init cps mb u now)"
    using assms(2) by (simp add: RateLimiter_init_def)
  from run_config [OF this assms(3)] show ?thesis by blast
qed

theorem configured_calls_raise_no_error_witness:
  "(0::real) < 2 \<and> (0::real) < 3
   \<and> list_all config_ok [(7, CheckCredit (- 1)), (1, Update 5 6), (0, Update 1 1), (4, CheckCredit 9)]
   \<and> run (RateLimiter_init 2 3 (1/3) 5)
        [(7, CheckCredit (- 1)), (1, Update 5 6), (0, Update 1 1), (4, CheckCredit 9)]
      = Inr \<lparr>credits_per_second = 1, max_balance = 1, balance = 1/2, last_tick = 4\<rparr>
   \<and> list_all (\<lambda>s. 0 < max_balance s) (observations (RateLimiter_init 2 3 (1/3) 5)
        [(7, CheckCredit (- 1)), (1, Update 5 6), (0, Update 1 1), (4, CheckCredit 9)])"
  using configured_calls_raise_no_error [of 2 3
      "[(7, CheckCredit (- 1)), (1, Update 5 6), (0, Update 1 1), (4, CheckCredit 9)]" "1/3" 5]
  by (simp add: RateLimiter_init_def check_credit_def update_def update_balance_eq Let_def
      list_all_iff)

section \<open>Properties of the rate limiter in rounded arithmetic\<close>

subsection \<open>Exact arithmetic is rounded arithmetic without rounding\<close>

lemma update_balance_fl_exact: "update_balance_fl (\<lambda>x. x) t s = update_balance t s"
  by (simp add: update_balance_fl_def update_balance_def)

lemma update_fl_exact: "update_fl (\<lambda>x. x) t cps mb s = update t cps mb s"
  by (simp add: update_fl_def update_def update_balance_fl_exact)

lemma check_credit_fl_exact: "check_credit_fl (\<lambda>x. x) t c s = check_credit t c s"
  by (simp add: check_credit_fl_def check_credit_def update_balance_fl_exact)

lemma RateLimiter_init_fl_exact:
  "RateLimiter_init_fl (\<lambda>x. x) cps mb u now = RateLimiter_init cps mb u now"
  by (simp add: RateLimiter_init_fl_def RateLimiter_init_def)

subsection \<open>Rounding to binary64 is a rounding\<close>

lemma pow2_powr: "pow2 e = 2 powr of_int e"
  by (simp add: pow2_def powr_real_of_int field_simps)

lemma pow2_pos [simp]: "0 < pow2 e"
  by (simp add: pow2_powr)

lemma pow2_nonzero [simp]: "pow2 e \<noteq> 0"
  using pow2_pos [of e] by linarith

lemma pow2_add: "pow2 (a + b) = pow2 a * pow2 b"
  by (simp add: pow2_powr powr_add)

lemma pow2_Suc: "pow2 (e + 1) = 2 * pow2 e"
  using pow2_add [of e 1] by (simp add: pow2_def)

lemma pow2_split: "pow2 e = pow2 (e - 52) * 2 ^ 52"
  using pow2_add [of "e - 52" 52] by (simp add: pow2_def)

lemma pow2_mono: "a \<le> b \<Longrightarrow> pow2 a \<le> pow2 b"
  by (simp add: pow2_powr)

lemma round_half_even_of_int [simp]: "round_half_even (of_int n) = n"
  by (simp add: round_half_even_def)

lemma round_half_even_cases:
  "round_half_even y = \<lfloor>y\<rfloor> \<or> round_half_even y = \<lfloor>y\<rfloor> + 1"
  by (simp add: round_half_even_def Let_def)

lemma round_half_even_mono:
  assumes "x \<le> y"
  shows "round_half_even x \<le> round_half_even y"
proof (cases "\<lfloor>x\<rfloor> = \<lfloor>y\<rfloor>")
  case True
  then show ?thesis
    using assms by (auto simp: round_half_even_def Let_def)
next
  case False
  then have "\<lfloor>x\<rfloor> + 1 \<le> \<lfloor>y\<rfloor>"
    using floor_mono [OF assms] by linarith
  then show ?thesis
    using round_half_even_cases [of x] round_half_even_cases [of y] by linarith
qed

lemma round_half_even_minus: "round_half_even (- y) = - round_half_even y"
proof (cases "y \<in> \<int>")
  case True
  then obtain n where "y = of_int n" by (auto elim: Ints_cases)
  then have "- y = of_int (- n)" by simp
  then show ?thesis unfolding \<open>y = of_int n\<close> by (simp only: round_half_even_of_int)
next
  case False
  then have ne: "y \<noteq> of_int \<lfloor>y\<rfloor>"
    by (metis Ints_of_int)
  then have fl: "\<lfloor>- y\<rfloor> = - \<lfloor>y\<rfloor> - 1"
    by (simp add: floor_minus ceiling_altdef)
  have "of_int \<lfloor>y\<rfloor> < y" using ne
    by (metis floor_correct order_less_le)
  then show ?thesis
    unfolding round_half_even_def Let_def fl
    by (auto simp: algebra_simps)
qed

lemma floor_log2_eq:
  assumes "pow2 e \<le> x" "x < pow2 (e + 1)"
  shows "\<lfloor>log 2 x\<rfloor> = e"
proof -
  have pos: "0 < x" using assms(1) pow2_pos [of e] by linarith
  have "of_int e \<le> log 2 x" using assms(1) pos by (simp add: le_log_iff pow2_powr)
  moreover have "log 2 x < of_int (e + 1)"
    using assms(2) pos by (subst log_less_iff) (simp_all add: pow2_powr)
  ultimately show ?thesis by (simp add: floor_eq_iff)
qed

lemma floor_log2_bounds:
  assumes "0 < x"
  shows "pow2 \<lfloor>log 2 x\<rfloor> \<le> x \<and> x < pow2 (\<lfloor>log 2 x\<rfloor> + 1)"
proof -
  have a: "pow2 \<lfloor>log 2 x\<rfloor> \<le> x"
    unfolding pow2_powr using assms by (subst le_log_iff [symmetric]) simp_all
  have "log 2 x < of_int (\<lfloor>log 2 x\<rfloor> + 1)" by linarith
  then have b: "x < pow2 (\<lfloor>log 2 x\<rfloor> + 1)"
    unfolding pow2_powr using assms by (subst log_less_iff [symmetric]) simp_all
  from a b show ?thesis by simp
qed

lemma binary64_0 [simp]: "binary64 0 = 0"
  by (simp add: binary64_def)

lemma binary64_eval:
  assumes "pow2 e \<le> \<bar>x\<bar>" "\<bar>x\<bar> < pow2 (e + 1)"
  shows "binary64 x = of_int (round_half_even (x / pow2 (e - 52))) * pow2 (e - 52)"
proof -
  have "\<lfloor>log 2 \<bar>x\<bar>\<rfloor> = e" using assms by (rule floor_log2_eq)
  moreover have "0 < \<bar>x\<bar>" using assms(1) pow2_pos [of e] by linarith
  then have "x \<noteq> 0" by simp
  ultimately show ?thesis by (simp add: binary64_def Let_def)
qed

lemma binary64_minus: "binary64 (- x) = - binary64 x"
  by (simp add: binary64_def Let_def round_half_even_minus)

lemma mantissa_bounds:
  assumes "pow2 e \<le> x" "x < pow2 (e + 1)"
  shows "2 ^ 52 \<le> round_half_even (x / pow2 (e - 52))"
    and "round_half_even (x / pow2 (e - 52)) \<le> 2 ^ 53"
proof -
  let ?s = "pow2 (e - 52)"
  have s: "0 < ?s" by simp
  have e: "pow2 e = ?s * 2 ^ 52" by (rule pow2_split)
  have "2 ^ 52 * ?s \<le> x" using assms(1) unfolding e by (simp add: mult.commute)
  then have lo: "of_int (2 ^ 52) \<le> x / ?s" using s by (simp add: le_divide_eq)
  have "x < 2 ^ 53 * ?s" using assms(2) unfolding pow2_Suc e by (simp add: mult.commute)
  then have hi: "x / ?s \<le> of_int (2 ^ 53)" using s by (simp add: divide_le_eq)
  from round_half_even_mono [OF lo] show "2 ^ 52 \<le> round_half_even (x / ?s)"
    by (simp only: round_half_even_of_int)
  from round_half_even_mono [OF hi] show "round_half_even (x / ?s) \<le> 2 ^ 53"
    by (simp only: round_half_even_of_int)
qed

lemma binary64_bounds:
  assumes "pow2 e \<le> x" "x < pow2 (e + 1)"
  shows "pow2 e \<le> binary64 x \<and> binary64 x \<le> pow2 (e + 1)"
proof -
  let ?s = "pow2 (e - 52)"
  let ?n = "round_half_even (x / ?s)"
  have pos: "0 < x" using assms(1) pow2_pos [of e] by linarith
  have ev: "binary64 x = of_int ?n * ?s"
    using assms pos by (intro binary64_eval) simp_all
  have s: "0 < ?s" by simp
  have e: "pow2 e = ?s * 2 ^ 52" by (rule pow2_split)
  from mantissa_bounds [OF assms] have "(2::real) ^ 52 \<le> of_int ?n" "of_int ?n \<le> (2::real) ^ 53"
    by (metis of_int_le_iff of_int_numeral of_int_power)+
  then have "2 ^ 52 * ?s \<le> of_int ?n * ?s" "of_int ?n * ?s \<le> 2 ^ 53 * ?s"
    using s by simp_all
  then show ?thesis
    unfolding ev pow2_Suc e by (simp add: mult.commute)
qed

lemma binary64_pos:
  assumes "0 < x"
  shows "0 < binary64 x"
proof -
  from floor_log2_bounds [OF assms] binary64_bounds [of "\<lfloor>log 2 x\<rfloor>" x]
  have "pow2 \<lfloor>log 2 x\<rfloor> \<le> binary64 x" by simp
  then show ?thesis using pow2_pos [of "\<lfloor>log 2 x\<rfloor>"] by linarith
qed

lemma binary64_mono_pos:
  assumes "0 < x" "x \<le> y"
  shows "binary64 x \<le> binary64 y"
proof -
  let ?ex = "\<lfloor>log 2 x\<rfloor>" and ?ey = "\<lfloor>log 2 y\<rfloor>"
  have y: "0 < y" using assms by simp
  have le: "?ex \<le> ?ey" using assms by (intro floor_mono) simp
  note bx = floor_log2_bounds [OF assms(1)] and by' = floor_log2_bounds [OF y]
  show ?thesis
  proof (cases "?ex = ?ey")
    case True
    let ?s = "pow2 (?ex - 52)"
    have "x / ?s \<le> y / ?s"
      using assms(2) by (intro divide_right_mono) (simp_all add: less_imp_le)
    then have "round_half_even (x / ?s) \<le> round_half_even (y / ?s)"
      by (rule round_half_even_mono)
    then have "of_int (round_half_even (x / ?s)) * ?s \<le> of_int (round_half_even (y / ?s)) * ?s"
      by (simp add: mult_right_mono)
    moreover have "binary64 x = of_int (round_half_even (x / ?s)) * ?s"
      using bx assms(1) by (intro binary64_eval) simp_all
    moreover have "binary64 y = of_int (round_half_even (y / ?s)) * ?s"
      unfolding True using by' y by (intro binary64_eval) simp_all
    ultimately show ?thesis by simp
  next
    case False
    then have "?ex + 1 \<le> ?ey" using le by simp
    then have "pow2 (?ex + 1) \<le> pow2 ?ey"
      by (rule pow2_mono)
    moreover have "binary64 x \<le> pow2 (?ex + 1)"
      using binary64_bounds [of ?ex x] bx by simp
    moreover have "pow2 ?ey \<le> binary64 y"
      using binary64_bounds [of ?ey y] by' by simp
    ultimately show ?thesis by linarith
  qed
qed

lemma binary64_mono:
  assumes "x \<le> y"
  shows "binary64 x \<le> binary64 y"
proof -
  consider "0 < x" | "x \<le> 0" "0 \<le> y" | "y < 0" by linarith
  then show ?thesis
  proof cases
    case 1
    then show ?thesis using assms by (rule binary64_mono_pos)
  next
    case 2
    have "binary64 x \<le> 0"
    proof (cases "x = 0")
      case False
      with 2 have "0 < binary64 (- x)" by (intro binary64_pos) simp
      then show ?thesis by (simp add: binary64_minus)
    qed simp
    moreover have "0 \<le> binary64 y"
    proof (cases "y = 0")
      case False
      with 2 have "0 < binary64 y" by (intro binary64_pos) simp
      then show ?thesis by simp
    qed simp
    ultimately show ?thesis by simp
  next
    case 3
    then have "binary64 (- y) \<le> binary64 (- x)"
      using assms by (intro binary64_mono_pos) simp_all
    then show ?thesis by (simp add: binary64_minus)
  qed
qed

lemma binary64_idem_pos:
  assumes "0 < x"
  shows "binary64 (binary64 x) = binary64 x"
proof -
  let ?e = "\<lfloor>log 2 x\<rfloor>"
  let ?s = "pow2 (?e - 52)"
  let ?n = "round_half_even (x / ?s)"
  note b = floor_log2_bounds [OF assms]
  have ev: "binary64 x = of_int ?n * ?s"
    using b assms by (intro binary64_eval) simp_all
  have s: "0 < ?s" by simp
  from b binary64_bounds [of ?e x]
  have lo: "pow2 ?e \<le> binary64 x" and hi: "binary64 x \<le> pow2 (?e + 1)"
    by simp_all
  have vpos: "0 < binary64 x" using assms by (rule binary64_pos)
  show ?thesis
  proof (cases "binary64 x = pow2 (?e + 1)")
    case True
    let ?t = "pow2 (?e + 1 - 52)"
    have sp: "pow2 (?e + 1) = ?t * 2 ^ 52" by (rule pow2_split)
    have p: "0 < pow2 (?e + 1)" by (rule pow2_pos)
    then have "pow2 (?e + 1) < pow2 (?e + 1 + 1)"
      unfolding pow2_Suc [of "?e + 1"] by linarith
    with p have "binary64 (pow2 (?e + 1)) =
        of_int (round_half_even (pow2 (?e + 1) / ?t)) * ?t"
      by (intro binary64_eval) (simp_all only: abs_of_pos order_refl)
    also have "pow2 (?e + 1) / ?t = of_int (2 ^ 52)"
      unfolding sp by simp
    also have "of_int (round_half_even (of_int (2 ^ 52))) * ?t = pow2 (?e + 1)"
      unfolding sp by (simp only: round_half_even_of_int) simp
    finally show ?thesis unfolding True .
  next
    case False
    with hi have "binary64 x < pow2 (?e + 1)" by simp
    with lo vpos have "binary64 (binary64 x) =
        of_int (round_half_even (binary64 x / ?s)) * ?s"
      by (intro binary64_eval) simp_all
    also have "binary64 x / ?s = of_int ?n" unfolding ev using s by simp
    also have "of_int (round_half_even (of_int ?n)) * ?s = binary64 x"
      unfolding ev by (simp only: round_half_even_of_int)
    finally show ?thesis .
  qed
qed

lemma binary64_idem: "binary64 (binary64 x) = binary64 x"
proof -
  consider "0 < x" | "x = 0" | "x < 0" by linarith
  then show ?thesis
  proof cases
    case 1
    then show ?thesis by (rule binary64_idem_pos)
  next
    case 2
    then show ?thesis by simp
  next
    case 3
    then have "binary64 (binary64 (- x)) = binary64 (- x)"
      by (intro binary64_idem_pos) simp
    then show ?thesis by (simp add: binary64_minus)
  qed
qed

lemma rounding_binary64: "rounding binary64"
  by (simp add: rounding_def binary64_mono binary64_idem)

subsection \<open>Evaluating the rounding\<close>

text \<open>
  The rounding of a given number is found from its exponent \<open>e\<close> and the rounded
  multiple \<open>n\<close> of \<open>2 ^ (e - 52)\<close>; the kernel checks both.
\<close>

lemma binary64_eqI:
  assumes "pow2 e \<le> \<bar>x\<bar>" "\<bar>x\<bar> < pow2 (e + 1)"
    and "round_half_even (x / pow2 (e - 52)) = n"
  shows "binary64 x = of_int n * pow2 (e - 52)"
  using binary64_eval [OF assms(1,2)] assms(3) by simp

lemma binary64_tenth: "binary64 (1 / 10) = 3602879701896397 / 36028797018963968"
proof -
  have "binary64 (1 / 10) = of_int 7205759403792794 * pow2 (- 4 - 52)"
    by (rule binary64_eqI) (simp_all add: pow2_def round_half_even_def)
  then show ?thesis by (simp add: pow2_def)
qed

lemma binary64_three_tenths: "binary64 (3 / 10) = 5404319552844595 / 18014398509481984"
proof -
  have "binary64 (3 / 10) = of_int 5404319552844595 * pow2 (- 2 - 52)"
    by (rule binary64_eqI) (simp_all add: pow2_def round_half_even_def)
  then show ?thesis by (simp add: pow2_def)
qed

lemma binary64_1: "binary64 (1) = 1"
proof -
  have "binary64 (1) = of_int 4503599627370496 * pow2 (0 - 52)"
    by (rule binary64_eqI) (simp_all add: pow2_def round_half_even_def)
  then show ?thesis by (simp add: pow2_def)
qed

lemma binary64_2: "binary64 (2) = 2"
proof -
  have "binary64 (2) = of_int 4503599627370496 * pow2 (1 - 52)"
    by (rule binary64_eqI) (simp_all add: pow2_def round_half_even_def)
  then show ?thesis by (simp add: pow2_def)
qed

lemma binary64_3: "binary64 (3) = 3"
proof -
  have "binary64 (3) = of_int 6755399441055744 * pow2 (1 - 52)"
    by (rule binary64_eqI) (simp_all add: pow2_def round_half_even_def)
  then show ?thesis by (simp add: pow2_def)
qed

lemma binary64_half: "binary64 (1 / 2) = 1 / 2"
proof -
  have "binary64 (1 / 2) = of_int 4503599627370496 * pow2 (- 1 - 52)"
    by (rule binary64_eqI) (simp_all add: pow2_def round_half_even_def)
  then show ?thesis by (simp add: pow2_def)
qed

lemma tenth_float: "binary64 (3602879701896397 / 36028797018963968) = 3602879701896397 / 36028797018963968"
proof -
  have "binary64 (3602879701896397 / 36028797018963968) = of_int 7205759403792794 * pow2 (- 4 - 52)"
    by (rule binary64_eqI) (simp_all add: pow2_def round_half_even_def)
  then show ?thesis by (simp add: pow2_def)
qed

lemma three_tenths_float: "binary64 (5404319552844595 / 18014398509481984) = 5404319552844595 / 18014398509481984"
proof -
  have "binary64 (5404319552844595 / 18014398509481984) = of_int 5404319552844595 * pow2 (- 2 - 52)"
    by (rule binary64_eqI) (simp_all add: pow2_def round_half_even_def)
  then show ?thesis by (simp add: pow2_def)
qed

lemma r1_init: "binary64 (3602879701896397 / 72057594037927936) = 3602879701896397 / 72057594037927936"
proof -
  have "binary64 (3602879701896397 / 72057594037927936) = of_int 7205759403792794 * pow2 (- 5 - 52)"
    by (rule binary64_eqI) (simp_all add: pow2_def round_half_even_def)
  then show ?thesis by (simp add: pow2_def)
qed

lemma r1_init_float: "binary64 (3602879701896397 / 72057594037927936) = 3602879701896397 / 72057594037927936"
proof -
  have "binary64 (3602879701896397 / 72057594037927936) = of_int 7205759403792794 * pow2 (- 5 - 52)"
    by (rule binary64_eqI) (simp_all add: pow2_def round_half_even_def)
  then show ?thesis by (simp add: pow2_def)
qed

lemma r1_replenish: "binary64 (75660473739824333 / 72057594037927936) = 4728779608739021 / 4503599627370496"
proof -
  have "binary64 (75660473739824333 / 72057594037927936) = of_int 4728779608739021 * pow2 (0 - 52)"
    by (rule binary64_eqI) (simp_all add: pow2_def round_half_even_def)
  then show ?thesis by (simp add: pow2_def)
qed

lemma r1_product: "binary64 (12980742146337070512478121581609 / 1298074214633706907132624082305024) = 1441151880758559 / 144115188075855872"
proof -
  have "binary64 (12980742146337070512478121581609 / 1298074214633706907132624082305024) = of_int 5764607523034236 * pow2 (- 7 - 52)"
    by (rule binary64_eqI) (simp_all add: pow2_def round_half_even_def)
  then show ?thesis by (simp add: pow2_def)
qed

lemma r1_quotient: "binary64 (1441151880758559 / 14411518807585588) = 7205759403792795 / 72057594037927936"
proof -
  have "binary64 (1441151880758559 / 14411518807585588) = of_int 7205759403792795 * pow2 (- 4 - 52)"
    by (rule binary64_eqI) (simp_all add: pow2_def round_half_even_def)
  then show ?thesis by (simp add: pow2_def)
qed

lemma r1_replenish2: "binary64 (79263353441720731 / 72057594037927936) = 2476979795053773 / 2251799813685248"
proof -
  have "binary64 (79263353441720731 / 72057594037927936) = of_int 4953959590107546 * pow2 (0 - 52)"
    by (rule binary64_eqI) (simp_all add: pow2_def round_half_even_def)
  then show ?thesis by (simp add: pow2_def)
qed

lemma v32_init: "binary64 (10808639105689191 / 36028797018963968) = 1351079888211149 / 4503599627370496"
proof -
  have "binary64 (10808639105689191 / 36028797018963968) = of_int 5404319552844596 * pow2 (- 2 - 52)"
    by (rule binary64_eqI) (simp_all add: pow2_def round_half_even_def)
  then show ?thesis by (simp add: pow2_def)
qed

lemma v32_init_float: "binary64 (1351079888211149 / 4503599627370496) = 1351079888211149 / 4503599627370496"
proof -
  have "binary64 (1351079888211149 / 4503599627370496) = of_int 5404319552844596 * pow2 (- 2 - 52)"
    by (rule binary64_eqI) (simp_all add: pow2_def round_half_even_def)
  then show ?thesis by (simp add: pow2_def)
qed

lemma v32_product1: "binary64 (7301667457314602163268943389655 / 81129638414606681695789005144064) = 6485183463413515 / 72057594037927936"
proof -
  have "binary64 (7301667457314602163268943389655 / 81129638414606681695789005144064) = of_int 6485183463413515 * pow2 (- 4 - 52)"
    by (rule binary64_eqI) (simp_all add: pow2_def round_half_even_def)
  then show ?thesis by (simp add: pow2_def)
qed

lemma v32_quotient1: "binary64 (6485183463413515 / 216172782113783808) = 8646911284551353 / 288230376151711744"
proof -
  have "binary64 (6485183463413515 / 216172782113783808) = of_int 8646911284551353 * pow2 (- 6 - 52)"
    by (rule binary64_eqI) (simp_all add: pow2_def round_half_even_def)
  then show ?thesis by (simp add: pow2_def)
qed

lemma v32_q1_float: "binary64 (8646911284551353 / 288230376151711744) = 8646911284551353 / 288230376151711744"
proof -
  have "binary64 (8646911284551353 / 288230376151711744) = of_int 8646911284551353 * pow2 (- 6 - 52)"
    by (rule binary64_eqI) (simp_all add: pow2_def round_half_even_def)
  then show ?thesis by (simp add: pow2_def)
qed

lemma v32_product2: "binary64 (46730671726813450602329505987035 / 5192296858534827628530496329220096) = 1297036692682703 / 144115188075855872"
proof -
  have "binary64 (46730671726813450602329505987035 / 5192296858534827628530496329220096) = of_int 5188146770730812 * pow2 (- 7 - 52)"
    by (rule binary64_eqI) (simp_all add: pow2_def round_half_even_def)
  then show ?thesis by (simp add: pow2_def)
qed

lemma v32_quotient2: "binary64 (1297036692682703 / 43234556422756760) = 4323455642275677 / 144115188075855872"
proof -
  have "binary64 (1297036692682703 / 43234556422756760) = of_int 8646911284551354 * pow2 (- 6 - 52)"
    by (rule binary64_eqI) (simp_all add: pow2_def round_half_even_def)
  then show ?thesis by (simp add: pow2_def)
qed

subsection \<open>The bounds that rounding keeps\<close>

lemma rounding_nonneg: "rounding rnd \<Longrightarrow> 0 \<le> x \<Longrightarrow> 0 \<le> rnd x"
  unfolding rounding_def by metis

lemma rounding_le: "rounding rnd \<Longrightarrow> x \<le> y \<Longrightarrow> rnd y = y \<Longrightarrow> rnd x \<le> y"
  unfolding rounding_def by metis

lemma rounding_ge: "rounding rnd \<Longrightarrow> x \<le> y \<Longrightarrow> rnd x = x \<Longrightarrow> x \<le> rnd y"
  unfolding rounding_def by metis

lemma rounding_idem: "rounding rnd \<Longrightarrow> rnd (rnd x) = rnd x"
  unfolding rounding_def by metis

lemma update_balance_fl_fields [simp]:
  "last_tick (update_balance_fl rnd t s) = t"
  "max_balance (update_balance_fl rnd t s) = max_balance s"
  "credits_per_second (update_balance_fl rnd t s) = credits_per_second s"
  by (simp_all add: update_balance_fl_def Let_def)

lemma update_balance_fl_inv:
  assumes r: "rounding rnd" and i: "inv_fl rnd s" and t: "last_tick s \<le> t"
  shows "inv_fl rnd (update_balance_fl rnd t s)"
    and "balance (update_balance_fl rnd t s) \<le> max_balance s"
proof -
  let ?inc = "rnd (rnd (t - last_tick s) * credits_per_second s)"
  let ?b = "rnd (balance s + ?inc)"
  have "0 \<le> rnd (t - last_tick s)" using t by (intro rounding_nonneg [OF r]) simp
  then have "0 \<le> rnd (t - last_tick s) * credits_per_second s"
    using i by (simp add: inv_fl_def)
  then have inc: "0 \<le> ?inc" by (rule rounding_nonneg [OF r])
  have "balance s \<le> ?b"
    using inc i by (intro rounding_ge [OF r]) (simp_all add: inv_fl_def)
  then have b: "0 \<le> ?b" using i by (simp add: inv_fl_def)
  have idem: "rnd ?b = ?b" by (rule rounding_idem [OF r])
  have i': "0 \<le> max_balance s" "0 \<le> credits_per_second s" "rnd (max_balance s) = max_balance s"
    using i by (simp_all add: inv_fl_def)
  show "inv_fl rnd (update_balance_fl rnd t s)"
  proof (cases "?b > max_balance s")
    case True
    then have "update_balance_fl rnd t s = s\<lparr>last_tick := t, balance := max_balance s\<rparr>"
      by (simp add: update_balance_fl_def Let_def)
    then show ?thesis using i' by (simp add: inv_fl_def)
  next
    case False
    then have "update_balance_fl rnd t s = s\<lparr>last_tick := t, balance := ?b\<rparr>"
      by (simp add: update_balance_fl_def Let_def)
    then show ?thesis using i' b idem by (simp add: inv_fl_def)
  qed
  show "balance (update_balance_fl rnd t s) \<le> max_balance s"
    by (simp add: update_balance_fl_def Let_def)
qed

lemma perform_fl_inv:
  assumes r: "rounding rnd" and i: "inv_fl rnd s"
    and a: "admissible (last_tick s) ((t, c) # cs)" and f: "float_call rnd (t, c)"
  shows "inv_fl rnd (state_after (perform_fl rnd s (t, c)))"
    and "admissible (last_tick (state_after (perform_fl rnd s (t, c)))) cs"
    and "is_check_credit c \<longrightarrow>
           balance (state_after (perform_fl rnd s (t, c)))
             \<le> max_balance (state_after (perform_fl rnd s (t, c)))"
proof -
  let ?s1 = "update_balance_fl rnd t s"
  have t: "last_tick s \<le> t" using a by (cases c) simp_all
  note u = update_balance_fl_inv [OF r i t]
  have i1: "0 \<le> balance ?s1" "0 \<le> max_balance s" "0 \<le> credits_per_second s"
    "rnd (balance ?s1) = balance ?s1" "rnd (max_balance s) = max_balance s"
    using u(1) by (simp_all add: inv_fl_def)
  show "inv_fl rnd (state_after (perform_fl rnd s (t, c)))"
  proof (cases c)
    case (CheckCredit item_cost)
    have c: "0 \<le> item_cost" using a CheckCredit by simp
    show ?thesis
    proof (cases "item_cost \<le> balance ?s1")
      case True
      then have "0 \<le> rnd (balance ?s1 - item_cost)" by (intro rounding_nonneg [OF r]) simp
      moreover have "rnd (rnd (balance ?s1 - item_cost)) = rnd (balance ?s1 - item_cost)"
        by (rule rounding_idem [OF r])
      ultimately show ?thesis
        using True i1 unfolding CheckCredit by (simp add: check_credit_fl_def Let_def inv_fl_def)
    next
      case False
      then show ?thesis
        using u(1) unfolding CheckCredit by (simp add: check_credit_fl_def Let_def)
    qed
  next
    case (Update cps mb)
    have m: "0 \<le> cps" "0 \<le> mb" "rnd mb = mb" using a f Update by simp_all
    show ?thesis
    proof (cases "max_balance s = 0")
      case True
      then show ?thesis
        using i1 m unfolding Update by (simp add: update_fl_def Let_def inv_fl_def)
    next
      case False
      then have pos: "0 < max_balance s" using i1(2) by simp
      have "0 \<le> rnd (mb * balance ?s1)" using m i1 by (intro rounding_nonneg [OF r]) simp
      then have "0 \<le> rnd (mb * balance ?s1) / max_balance s" using pos by simp
      then have "0 \<le> rnd (rnd (mb * balance ?s1) / max_balance s)"
        by (rule rounding_nonneg [OF r])
      moreover have "rnd (rnd (rnd (mb * balance ?s1) / max_balance s))
          = rnd (rnd (mb * balance ?s1) / max_balance s)"
        by (rule rounding_idem [OF r])
      ultimately show ?thesis
        using False m unfolding Update by (simp add: update_fl_def Let_def inv_fl_def)
    qed
  qed
  show "admissible (last_tick (state_after (perform_fl rnd s (t, c)))) cs"
    using a by (cases c) (simp_all add: check_credit_fl_def update_fl_def Let_def)
  show "is_check_credit c \<longrightarrow>
           balance (state_after (perform_fl rnd s (t, c)))
             \<le> max_balance (state_after (perform_fl rnd s (t, c)))"
  proof (cases c)
    case (CheckCredit item_cost)
    have c: "0 \<le> item_cost" using a CheckCredit by simp
    have "rnd (balance ?s1 - item_cost) \<le> balance ?s1"
      using c i1(4) by (intro rounding_le [OF r]) simp_all
    then show ?thesis
      using u(2) unfolding CheckCredit by (simp add: check_credit_fl_def Let_def)
  next
    case (Update cps mb)
    then show ?thesis by simp
  qed
qed

lemma after_calls_inv:
  assumes "rounding rnd" "inv_fl rnd s" "admissible (last_tick s) calls"
    "\<forall>c \<in> set calls. float_call rnd c"
  shows "\<forall>(c, s') \<in> set (after_calls rnd s calls).
           0 \<le> balance s' \<and> (is_check_credit c \<longrightarrow> balance s' \<le> max_balance s')"
  using assms(2-4)
proof (induction calls arbitrary: s)
  case Nil
  then show ?case by simp
next
  case (Cons tc cs)
  obtain t c where tc: "tc = (t, c)" by (cases tc)
  let ?s' = "state_after (perform_fl rnd s (t, c))"
  have f: "float_call rnd (t, c)" using Cons.prems(3) tc by simp
  note p = perform_fl_inv [OF assms(1) Cons.prems(1) Cons.prems(2) [unfolded tc] f]
  have "\<forall>(c, s') \<in> set (after_calls rnd ?s' cs).
           0 \<le> balance s' \<and> (is_check_credit c \<longrightarrow> balance s' \<le> max_balance s')"
    using p(1,2) Cons.prems(3) by (intro Cons.IH) simp_all
  moreover have "0 \<le> balance ?s'" using p(1) by (simp add: inv_fl_def)
  ultimately show ?case
    using p(3) unfolding tc by simp
qed

lemma rounding_init:
  assumes r: "rounding rnd" and "0 \<le> mb" "rnd mb = mb" "0 \<le> u" "u \<le> 1"
  shows "0 \<le> balance (RateLimiter_init_fl rnd cps mb u now)"
    and "balance (RateLimiter_init_fl rnd cps mb u now) \<le> mb"
proof -
  have "0 \<le> mb * u" using assms by simp
  then have "0 \<le> rnd (mb * u)" by (rule rounding_nonneg [OF r])
  then show "0 \<le> balance (RateLimiter_init_fl rnd cps mb u now)"
    by (simp add: RateLimiter_init_fl_def)
  have "mb * u \<le> mb * 1" using assms by (intro mult_left_mono) simp_all
  then have "rnd (mb * u) \<le> mb" using assms(3) by (intro rounding_le [OF r]) simp_all
  then show "balance (RateLimiter_init_fl rnd cps mb u now) \<le> mb"
    by (simp add: RateLimiter_init_fl_def)
qed

text \<open>
  C2, as amended, in the arithmetic of the code. Let every number be a float, the initial
  state have \<open>0 \<le> balance \<le> max_balance\<close> and a rate that is not negative, the clock
  never read less than the last tick, no cost be negative and no \<open>update\<close> receive a
  negative rate or maximal balance. Then \<open>0 \<le> balance\<close> holds after every call, and
  \<open>balance \<le> max_balance\<close> holds after every \<open>check_credit\<close>. The constructor, given
  \<open>max_balance \<ge> 0\<close> and \<open>u\<close> in \<open>[0, 1)\<close>, leaves \<open>0 \<le> balance \<le> max_balance\<close>.
  Nothing is said of \<open>balance \<le> max_balance\<close> right after an \<open>update\<close>.
\<close>

theorem balance_bound_rounded:
  assumes "rounding rnd"
  shows "(0 \<le> mb \<and> rnd mb = mb \<and> 0 \<le> u \<and> u < 1 \<longrightarrow>
            0 \<le> balance (RateLimiter_init_fl rnd cps mb u now)
            \<and> balance (RateLimiter_init_fl rnd cps mb u now)
                 \<le> max_balance (RateLimiter_init_fl rnd cps mb u now))
       \<and> (float_state rnd s \<and> (\<forall>c \<in> set calls. float_call rnd c)
            \<and> 0 \<le> balance s \<and> balance s \<le> max_balance s \<and> 0 \<le> credits_per_second s
            \<and> admissible (last_tick s) calls \<longrightarrow>
            (\<forall>(c, s') \<in> set (after_calls rnd s calls).
               0 \<le> balance s' \<and> (is_check_credit c \<longrightarrow> balance s' \<le> max_balance s')))"
proof (intro conjI impI)
  assume a: "0 \<le> mb \<and> rnd mb = mb \<and> 0 \<le> u \<and> u < 1"
  then show "0 \<le> balance (RateLimiter_init_fl rnd cps mb u now)"
    using rounding_init(1) [OF assms, of mb u] by simp
  from a have "balance (RateLimiter_init_fl rnd cps mb u now) \<le> mb"
    using rounding_init(2) [OF assms, of mb u] by simp
  then show "balance (RateLimiter_init_fl rnd cps mb u now)
      \<le> max_balance (RateLimiter_init_fl rnd cps mb u now)"
    by (simp add: RateLimiter_init_fl_def)
next
  assume a: "float_state rnd s \<and> (\<forall>c \<in> set calls. float_call rnd c)
            \<and> 0 \<le> balance s \<and> balance s \<le> max_balance s \<and> 0 \<le> credits_per_second s
            \<and> admissible (last_tick s) calls"
  then have "inv_fl rnd s" by (simp add: inv_fl_def float_state_def)
  with a show "\<forall>(c, s') \<in> set (after_calls rnd s calls).
               0 \<le> balance s' \<and> (is_check_credit c \<longrightarrow> balance s' \<le> max_balance s')"
    by (intro after_calls_inv [OF assms]) simp_all
qed

theorem balance_bound_rounded_witness:
  "rounding binary64
   \<and> float_state binary64 (RateLimiter_init_fl binary64 1 tenth (1/2) 0)
   \<and> list_all (float_call binary64) [(1, Update 1 tenth), (2, CheckCredit tenth)]
   \<and> 0 \<le> balance (RateLimiter_init_fl binary64 1 tenth (1/2) 0)
   \<and> balance (RateLimiter_init_fl binary64 1 tenth (1/2) 0)
        \<le> max_balance (RateLimiter_init_fl binary64 1 tenth (1/2) 0)
   \<and> 0 \<le> credits_per_second (RateLimiter_init_fl binary64 1 tenth (1/2) 0)
   \<and> admissible (last_tick (RateLimiter_init_fl binary64 1 tenth (1/2) 0))
        [(1, Update 1 tenth), (2, CheckCredit tenth)]
   \<and> after_calls binary64 (RateLimiter_init_fl binary64 1 tenth (1/2) 0)
        [(1, Update 1 tenth), (2, CheckCredit tenth)]
      = [(Update 1 tenth,
            \<lparr>credits_per_second = 1, max_balance = tenth,
               balance = 7205759403792795 / 72057594037927936, last_tick = 1\<rparr>),
         (CheckCredit tenth,
            \<lparr>credits_per_second = 1, max_balance = tenth, balance = 0, last_tick = 2\<rparr>)]
   \<and> list_all (\<lambda>(c, s'). 0 \<le> balance s' \<and> (is_check_credit c \<longrightarrow> balance s' \<le> max_balance s'))
        (after_calls binary64 (RateLimiter_init_fl binary64 1 tenth (1/2) 0)
           [(1, Update 1 tenth), (2, CheckCredit tenth)])"
  using balance_bound_rounded [OF rounding_binary64, of tenth "1/2" 1 0
      "RateLimiter_init_fl binary64 1 tenth (1/2) 0" "[(1, Update 1 tenth), (2, CheckCredit tenth)]"]
  by (simp add: rounding_binary64 float_state_def RateLimiter_init_fl_def tenth_def
      update_fl_def check_credit_fl_def update_balance_fl_def Let_def list_all_iff
      binary64_1 binary64_2 binary64_half tenth_float r1_init r1_init_float r1_replenish
      r1_product r1_quotient r1_replenish2)

text \<open>
  The bound of the claim does not hold for every sequence of calls. First, in numbers that
  doubles hold exactly: a limiter is constructed at time 10 with rate 1, maximal balance 1
  and balance 1/2. The next call, \<open>check_credit(1)\<close>, reads the time 9: the balance falls
  to -1/2. Then \<open>check_credit(-3)\<close> is granted and the balance rises to 5/2, above the
  maximal balance 1. Second, in a well-behaved environment: \<^verbatim>\<open>RateLimiter(1.0, 0.1)\<close>
  is constructed at time 0 with \<open>u = 0.5\<close>, and \<^verbatim>\<open>update(1.0, 0.1)\<close> reads the time 1.
  Replenishing fills the bucket to \<open>0.1\<close>, and line 40 leaves
  \<open>0.1 * 0.1 / 0.1 = 0.10000000000000002\<close>, above the maximal balance.
\<close>

theorem balance_bound_counterexample:
  "map balance (observations (RateLimiter_init 1 1 (1/2) 10) [(9, CheckCredit 1), (9, CheckCredit (- 3))])
     = [1/2, - 1/2, 5/2]
   \<and> map max_balance (observations (RateLimiter_init 1 1 (1/2) 10) [(9, CheckCredit 1), (9, CheckCredit (- 3))])
     = [1, 1, 1]
   \<and> \<not> list_all bounded
         (observations (RateLimiter_init 1 1 (1/2) 10) [(9, CheckCredit 1), (9, CheckCredit (- 3))])
   \<and> admissible (last_tick (RateLimiter_init_fl binary64 1 tenth (1/2) 0)) [(1, Update 1 tenth)]
   \<and> after_calls binary64 (RateLimiter_init_fl binary64 1 tenth (1/2) 0) [(1, Update 1 tenth)]
      = [(Update 1 tenth,
            \<lparr>credits_per_second = 1, max_balance = tenth,
               balance = 7205759403792795 / 72057594037927936, last_tick = 1\<rparr>)]
   \<and> tenth < 7205759403792795 / 72057594037927936"
  by (simp add: RateLimiter_init_def check_credit_def update_balance_eq Let_def bounded_def
      RateLimiter_init_fl_def tenth_def update_fl_def update_balance_fl_def
      binary64_1 r1_init r1_replenish r1_product r1_quotient)

subsection \<open>Two updates in a row\<close>

lemma update_fl_fields:
  assumes "max_balance s \<noteq> 0"
  shows "\<exists>s'. update_fl rnd t cps mb s = Inr s' \<and> credits_per_second s' = cps
           \<and> max_balance s' = mb \<and> last_tick s' = t
           \<and> balance s' = rnd (rnd (mb * balance (update_balance_fl rnd t s)) / max_balance s)"
  using assms by (simp add: update_fl_def Let_def)

lemma update_balance_fl_same_tick:
  assumes r: "rounding rnd" and f: "rnd (balance s) = balance s"
  shows "balance (update_balance_fl rnd (last_tick s) s) = min (balance s) (max_balance s)"
proof -
  have z: "rnd 0 = 0" using r by (simp add: rounding_def)
  show ?thesis
    by (simp add: update_balance_fl_def Let_def z f min_def)
qed

text \<open>
  C10, as amended. Let the maximal balance \<open>m1\<close> of the limiter and \<open>m2\<close> be positive,
  and let both calls read the same time \<open>t\<close>. In exact arithmetic, \<open>update(r2, m2)\<close>
  followed by \<open>update(r1, m1)\<close> leaves what replenishing at \<open>t\<close> alone leaves, with the
  rate \<open>r1\<close>: the balance is the replenished balance of the first call, which is the
  balance before the first call when moreover \<open>t\<close> is the last tick and that balance is
  at most \<open>m1\<close>; and \<open>update(r2, m2)\<close> called twice leaves the same state as called
  once. In rounded arithmetic, when \<open>update(r2, m2)\<close> has left the balance \<open>b\<close>, a
  call \<open>update(r, m)\<close> that reads the same time leaves the rate \<open>r\<close>, the maximal
  balance \<open>m\<close>, the same last tick and the balance \<open>rnd (rnd (m * min b m2) / m2)\<close>;
  for \<open>(r, m) = (r2, m2)\<close> this need not be \<open>b\<close>.
\<close>

theorem update_round_trip:
  assumes "0 < max_balance s" "0 < m2"
  shows "run s [(t, Update r2 m2), (t, Update r1 (max_balance s))] =
           Inr ((update_balance t s)\<lparr>credits_per_second := r1\<rparr>)
         \<and> (t = last_tick s \<and> balance s \<le> max_balance s \<longrightarrow>
              run s [(t, Update r2 m2), (t, Update r1 (max_balance s))] =
                Inr (s\<lparr>credits_per_second := r1\<rparr>))
         \<and> run s [(t, Update r2 m2), (t, Update r2 m2)] = run s [(t, Update r2 m2)]
         \<and> (rounding rnd \<longrightarrow>
              (\<exists>s1 s2. run_fl rnd s [(t, Update r2 m2)] = Inr s1
                 \<and> run_fl rnd s [(t, Update r2 m2), (t, Update r m)] = Inr s2
                 \<and> credits_per_second s2 = r \<and> max_balance s2 = m
                 \<and> last_tick s2 = last_tick s1
                 \<and> balance s2 = rnd (rnd (m * min (balance s1) m2) / m2)))"
proof -
  let ?b = "balance (update_balance t s)"
  let ?s1 = "\<lparr>credits_per_second = r2, max_balance = m2,
                balance = m2 * ?b / max_balance s, last_tick = t\<rparr>"
  have call1: "update t r2 m2 s = Inr ?s1"
    using assms(1) by (intro update_Inr) simp
  have le: "m2 * ?b / max_balance s \<le> m2"
    using assms by (intro fill_le balance_update_balance_le) simp_all
  have same: "update_balance t ?s1 = ?s1"
    using le update_balance_same_tick [of ?s1] by simp
  have call2: "update t r1 (max_balance s) ?s1 =
      Inr \<lparr>credits_per_second = r1, max_balance = max_balance s, balance = ?b, last_tick = t\<rparr>"
    using assms by (simp add: update_Inr same)
  have call2b: "update t r2 m2 ?s1 = Inr ?s1"
    using assms by (simp add: update_Inr same)
  have rt: "run s [(t, Update r2 m2), (t, Update r1 (max_balance s))] =
           Inr ((update_balance t s)\<lparr>credits_per_second := r1\<rparr>)"
  proof -
    have "run s [(t, Update r2 m2), (t, Update r1 (max_balance s))] =
        Inr \<lparr>credits_per_second = r1, max_balance = max_balance s, balance = ?b, last_tick = t\<rparr>"
      by (simp add: call1 call2)
    also have "\<lparr>credits_per_second = r1, max_balance = max_balance s, balance = ?b, last_tick = t\<rparr>
        = (update_balance t s)\<lparr>credits_per_second := r1\<rparr>"
      by (simp add: update_balance_eq)
    finally show ?thesis .
  qed
  have idem: "run s [(t, Update r2 m2), (t, Update r2 m2)] = run s [(t, Update r2 m2)]"
    by (simp add: call1 call2b)
  have orig: "t = last_tick s \<and> balance s \<le> max_balance s \<longrightarrow>
      run s [(t, Update r2 m2), (t, Update r1 (max_balance s))] =
        Inr (s\<lparr>credits_per_second := r1\<rparr>)"
  proof
    assume "t = last_tick s \<and> balance s \<le> max_balance s"
    then have eq: "update_balance t s = s"
      by (simp add: update_balance_same_tick)
    show "run s [(t, Update r2 m2), (t, Update r1 (max_balance s))] =
        Inr (s\<lparr>credits_per_second := r1\<rparr>)"
      using rt unfolding eq .
  qed
  have rounded: "rounding rnd \<longrightarrow>
              (\<exists>s1 s2. run_fl rnd s [(t, Update r2 m2)] = Inr s1
                 \<and> run_fl rnd s [(t, Update r2 m2), (t, Update r m)] = Inr s2
                 \<and> credits_per_second s2 = r \<and> max_balance s2 = m
                 \<and> last_tick s2 = last_tick s1
                 \<and> balance s2 = rnd (rnd (m * min (balance s1) m2) / m2))"
  proof
    assume r: "rounding rnd"
    from update_fl_fields [of s rnd t r2 m2] assms(1)
    obtain s1 where s1: "update_fl rnd t r2 m2 s = Inr s1" "credits_per_second s1 = r2"
      "max_balance s1 = m2" "last_tick s1 = t"
      "balance s1 = rnd (rnd (m2 * balance (update_balance_fl rnd t s)) / max_balance s)"
      by auto
    from update_fl_fields [of s1 rnd t r m] assms(2) s1(3)
    obtain s2 where s2: "update_fl rnd t r m s1 = Inr s2" "credits_per_second s2 = r"
      "max_balance s2 = m" "last_tick s2 = t"
      "balance s2 = rnd (rnd (m * balance (update_balance_fl rnd t s1)) / max_balance s1)"
      by auto
    have "rnd (balance s1) = balance s1"
      unfolding s1(5) by (rule rounding_idem [OF r])
    from update_balance_fl_same_tick [OF r this]
    have "balance (update_balance_fl rnd t s1) = min (balance s1) m2"
      by (simp add: s1(3,4))
    then have "balance s2 = rnd (rnd (m * min (balance s1) m2) / m2)"
      by (simp add: s2(5) s1(3))
    with s1 s2 show "\<exists>s1 s2. run_fl rnd s [(t, Update r2 m2)] = Inr s1
                 \<and> run_fl rnd s [(t, Update r2 m2), (t, Update r m)] = Inr s2
                 \<and> credits_per_second s2 = r \<and> max_balance s2 = m
                 \<and> last_tick s2 = last_tick s1
                 \<and> balance s2 = rnd (rnd (m * min (balance s1) m2) / m2)"
      by simp
  qed
  from rt orig idem rounded show ?thesis by (intro conjI)
qed

theorem update_round_trip_witness:
  "0 < max_balance half_full \<and> (0::real) < 4
   \<and> last_tick half_full < 1/4
   \<and> balance (update_balance (1/4) half_full) = 3/4
   \<and> run half_full [(1/4, Update 3 4)] =
        Inr \<lparr>credits_per_second = 3, max_balance = 4, balance = 3, last_tick = 1/4\<rparr>
   \<and> run half_full [(1/4, Update 3 4), (1/4, Update 3 4)] = run half_full [(1/4, Update 3 4)]
   \<and> run half_full [(1/4, Update 3 4), (1/4, Update 7 (max_balance half_full))] =
        Inr \<lparr>credits_per_second = 7, max_balance = 1, balance = 3/4, last_tick = 1/4\<rparr>
   \<and> 0 = last_tick half_full \<and> balance half_full \<le> max_balance half_full
   \<and> run half_full [(0, Update 3 4), (0, Update 7 (max_balance half_full))] =
        Inr (half_full\<lparr>credits_per_second := 7\<rparr>)
   \<and> rounding binary64
   \<and> 0 < max_balance (RateLimiter_init_fl binary64 1 3 tenth 0) \<and> 0 < three_tenths
   \<and> balance (state_after (run_fl binary64 (RateLimiter_init_fl binary64 1 3 tenth 0)
         [(0, Update 1 three_tenths), (0, Update 1 three_tenths)]))
       = binary64 (binary64 (three_tenths *
           min (balance (state_after (run_fl binary64 (RateLimiter_init_fl binary64 1 3 tenth 0)
                  [(0, Update 1 three_tenths)]))) three_tenths) / three_tenths)"
  using update_round_trip [of half_full 4 "1/4" 3 7 binary64 7 1]
    update_round_trip [of half_full 4 0 3 7 binary64 7 1]
    update_round_trip [of "RateLimiter_init_fl binary64 1 3 tenth 0" three_tenths 0 1 1 binary64
      1 three_tenths]
  by (simp add: half_full_def RateLimiter_init_def update_def update_balance_eq Let_def
      rounding_binary64 RateLimiter_init_fl_def tenth_def three_tenths_def update_fl_def
      update_balance_fl_def
      v32_init v32_init_float v32_product1 v32_quotient1 v32_q1_float v32_product2 v32_quotient2)

text \<open>
  The round trip does not restore every balance, even with no time elapsed at all: from
  \<open>over_full\<close> (balance 2, maximal balance 1, last tick 0), \<open>update(1, 2)\<close> and then
  \<open>update(1, 1)\<close>, both at time 0, leave the balance 1. And in the doubles of the code
  the second of two equal calls changes the balance: \<^verbatim>\<open>RateLimiter(1.0, 3.0)\<close> with
  \<open>u = 0.1\<close> has the balance \<open>0.30000000000000004\<close>; \<^verbatim>\<open>update(1.0, 0.3)\<close> at the
  time of construction leaves \<open>0.030000000000000002\<close>, and the same call again leaves
  \<open>0.030000000000000006\<close>.
\<close>

theorem update_round_trip_counterexample:
  "balance over_full = 2 \<and> max_balance over_full = 1 \<and> last_tick over_full = 0
   \<and> run over_full [(0, Update 1 2), (0, Update 1 1)] =
        Inr \<lparr>credits_per_second = 1, max_balance = 1, balance = 1, last_tick = 0\<rparr>
   \<and> balance (state_after (run over_full [(0, Update 1 2), (0, Update 1 1)])) \<noteq> balance over_full
   \<and> run_fl binary64 (RateLimiter_init_fl binary64 1 3 tenth 0) [(0, Update 1 three_tenths)] =
        Inr \<lparr>credits_per_second = 1, max_balance = three_tenths,
             balance = 8646911284551353 / 288230376151711744, last_tick = 0\<rparr>
   \<and> run_fl binary64 (RateLimiter_init_fl binary64 1 3 tenth 0)
         [(0, Update 1 three_tenths), (0, Update 1 three_tenths)] =
        Inr \<lparr>credits_per_second = 1, max_balance = three_tenths,
             balance = 4323455642275677 / 144115188075855872, last_tick = 0\<rparr>
   \<and> run_fl binary64 (RateLimiter_init_fl binary64 1 3 tenth 0)
         [(0, Update 1 three_tenths), (0, Update 1 three_tenths)]
       \<noteq> run_fl binary64 (RateLimiter_init_fl binary64 1 3 tenth 0) [(0, Update 1 three_tenths)]"
  by (simp add: over_full_eq update_def update_balance_eq Let_def
      RateLimiter_init_fl_def tenth_def three_tenths_def update_fl_def update_balance_fl_def
      v32_init v32_init_float v32_product1 v32_quotient1 v32_q1_float v32_product2 v32_quotient2)

section \<open>Properties of the reporters\<close>

text \<open>
  C4. \<open>report_span\<close> is one step that waits for nothing. On a closed reporter it emits
  one increment of the dropped counter and changes nothing else. When the queue is at
  capacity the non-blocking enqueue fails, and again the call emits one increment of the
  dropped counter and changes nothing else. In both cases the reporter after the call
  does not hold the span (the queue and the pending batch are as before), so the span is
  never delivered; and the call returns.
\<close>

theorem report_span_drops:
  "(state r = Closed \<longrightarrow> report_span sp r = r\<lparr>result_dropped := result_dropped r + 1\<rparr>)
   \<and> (capacity (queue r) \<le> length (items (queue r)) \<longrightarrow>
        \<not> fst (try_enqueue sp (queue r))
        \<and> report_span sp r = r\<lparr>result_dropped := result_dropped r + 1\<rparr>)"
  by (simp add: report_span_def try_enqueue_def)

theorem report_span_drops_witness:
  "state \<lparr>state = Closed, queue = \<lparr>items = [], capacity = 1, outstanding = 0\<rparr>,
      pending_batch = [], result_dropped = 0, result_ok = 1, result_err = 0\<rparr> = Closed
   \<and> report_span (1::nat)
        \<lparr>state = Closed, queue = \<lparr>items = [], capacity = 1, outstanding = 0\<rparr>,
          pending_batch = [], result_dropped = 0, result_ok = 1, result_err = 0\<rparr>
      = \<lparr>state = Closed, queue = \<lparr>items = [], capacity = 1, outstanding = 0\<rparr>,
          pending_batch = [], result_dropped = 1, result_ok = 1, result_err = 0\<rparr>
   \<and> capacity (queue \<lparr>state = Open, queue = \<lparr>items = [2], capacity = 1, outstanding = 2\<rparr>,
          pending_batch = [], result_dropped = 0, result_ok = 0, result_err = 0\<rparr>)
        \<le> length (items (queue \<lparr>state = Open,
              queue = \<lparr>items = [2::nat], capacity = 1, outstanding = 2\<rparr>,
              pending_batch = [], result_dropped = 0, result_ok = 0, result_err = 0\<rparr>))
   \<and> report_span (3::nat)
        \<lparr>state = Open, queue = \<lparr>items = [2], capacity = 1, outstanding = 2\<rparr>,
          pending_batch = [], result_dropped = 0, result_ok = 0, result_err = 0\<rparr>
      = \<lparr>state = Open, queue = \<lparr>items = [2], capacity = 1, outstanding = 2\<rparr>,
          pending_batch = [], result_dropped = 1, result_ok = 0, result_err = 0\<rparr>"
  using report_span_drops [of
      "\<lparr>state = Closed, queue = \<lparr>items = [], capacity = 1, outstanding = 0\<rparr>,
        pending_batch = [], result_dropped = 0, result_ok = 1, result_err = 0\<rparr>" "1::nat"]
    report_span_drops [of
      "\<lparr>state = Open, queue = \<lparr>items = [2::nat], capacity = 1, outstanding = 2\<rparr>,
        pending_batch = [], result_dropped = 0, result_ok = 0, result_err = 0\<rparr>" "3::nat"]
  by simp

lemma composite_report_span_fold:
  "composite_report_span rs sp w = fold (\<lambda>r. report_span_op r sp) rs w"
  by (induction rs arbitrary: w) simp_all

lemma composite_set_process_fold:
  "composite_set_process rs n tags l w = fold (\<lambda>r. set_process_op r n tags l) rs w"
  by (induction rs arbitrary: w) simp_all

lemma composite_close_fold:
  "composite_close rs w = fold close_op rs w"
  by (induction rs arbitrary: w) simp_all

lemma recorded_report_span:
  "composite_report_span (map recorder ns) sp w = w @ map (\<lambda>i. (i, ReportSpanCalled sp)) ns"
  by (induction ns arbitrary: w) (simp_all add: recorder_def)

lemma recorded_set_process:
  "composite_set_process (map recorder ns) n tags l w = w @ map (\<lambda>i. (i, SetProcessCalled n tags l)) ns"
  by (induction ns arbitrary: w) (simp_all add: recorder_def)

lemma recorded_close:
  "composite_close (map recorder ns) w = w @ map (\<lambda>i. (i, CloseCalled)) ns"
  by (induction ns arbitrary: w) (simp_all add: recorder_def)

lemma joined_Pending: "joined cs = Pending \<longleftrightarrow> Pending \<in> set cs"
  by (simp add: joined_def)

lemma joined_Failed: "joined cs = Failed \<longleftrightarrow> Pending \<notin> set cs \<and> Failed \<in> set cs"
  by (simp add: joined_def)

lemma length_settle [simp]: "length (settle cs e) = length cs"
  by (cases e) simp

lemma length_foldl_settle [simp]: "length (foldl settle cs es) = length cs"
  by (induction es arbitrary: cs) simp_all


lemma settle_nth:
  assumes "i < length cs"
  shows "settle cs e ! i \<noteq> Pending \<longleftrightarrow> cs ! i \<noteq> Pending \<or> (\<exists>c. c \<noteq> Pending \<and> e = (i, c))"
proof (cases e)
  case (Pair j c)
  show ?thesis
    using assms unfolding Pair by (cases "j = i") auto
qed

lemma foldl_settle_nth:
  assumes "i < length cs"
  shows "foldl settle cs es ! i \<noteq> Pending \<longleftrightarrow>
           cs ! i \<noteq> Pending \<or> (\<exists>c. c \<noteq> Pending \<and> (i, c) \<in> set es)"
  using assms
proof (induction es arbitrary: cs)
  case Nil
  then show ?case by simp
next
  case (Cons e es)
  have "foldl settle cs (e # es) ! i \<noteq> Pending \<longleftrightarrow>
          settle cs e ! i \<noteq> Pending \<or> (\<exists>c. c \<noteq> Pending \<and> (i, c) \<in> set es)"
    using Cons.IH [of "settle cs e"] Cons.prems by simp
  also have "\<dots> \<longleftrightarrow> cs ! i \<noteq> Pending \<or> (\<exists>c. c \<noteq> Pending \<and> (i, c) \<in> set (e # es))"
    using settle_nth [OF Cons.prems, of e] by auto
  finally show ?case .
qed

lemma joined_all_pending:
  "joined (foldl settle (replicate n Pending) es) \<noteq> Pending \<longleftrightarrow>
     (\<forall>i<n. \<exists>c. c \<noteq> Pending \<and> (i, c) \<in> set es)"
proof -
  let ?X = "foldl settle (replicate n Pending) es"
  have len: "length ?X = n" by simp
  have "joined ?X \<noteq> Pending \<longleftrightarrow> (\<forall>i<n. ?X ! i \<noteq> Pending)"
    unfolding joined_Pending using len by (metis in_set_conv_nth)
  also have "\<dots> \<longleftrightarrow> (\<forall>i<n. \<exists>c. c \<noteq> Pending \<and> (i, c) \<in> set es)"
    using foldl_settle_nth [of _ "replicate n Pending" es] by simp
  finally show ?thesis .
qed

text \<open>
  C5. \<open>set_process\<close> and \<open>report_span\<close> of the composite reporter run the same
  operation of every child, one after the other in the order of the list, each on what
  the one before left; recording children see each call once, in that order, and
  \<open>close\<close> invokes \<open>close\<close> on every child likewise. The completion that \<open>close\<close>
  returns is pending exactly as long as some child's completion is pending: with all
  children pending at first, it has settled after a sequence of events iff every child's
  completion has settled in that sequence. A child's failure does not settle it: it fails
  only when no child is pending any more and some child has failed.
\<close>

theorem composite_reporter_fan_out:
  fixes rs :: "('w, 'span) Reporter list" and tr :: "(nat \<times> 'span invocation) list"
  shows
  "composite_set_process rs service_name tags max_length w =
     fold (\<lambda>r. set_process_op r service_name tags max_length) rs w
   \<and> composite_report_span rs sp w = fold (\<lambda>r. report_span_op r sp) rs w
   \<and> composite_close rs w = fold close_op rs w
   \<and> composite_set_process (map recorder ns) service_name tags max_length tr =
       tr @ map (\<lambda>i. (i, SetProcessCalled service_name tags max_length)) ns
   \<and> composite_report_span (map recorder ns) sp tr = tr @ map (\<lambda>i. (i, ReportSpanCalled sp)) ns
   \<and> composite_close (map recorder ns) tr = tr @ map (\<lambda>i. (i, CloseCalled)) ns
   \<and> (joined cs = Pending \<longleftrightarrow> Pending \<in> set cs)
   \<and> (joined cs = Failed \<longleftrightarrow> Pending \<notin> set cs \<and> Failed \<in> set cs)
   \<and> (joined (foldl settle (replicate n Pending) es) \<noteq> Pending \<longleftrightarrow>
        (\<forall>i<n. \<exists>c. c \<noteq> Pending \<and> (i, c) \<in> set es))"
  by (intro conjI composite_set_process_fold composite_report_span_fold composite_close_fold
      recorded_set_process recorded_report_span recorded_close joined_Pending joined_Failed
      joined_all_pending)

theorem composite_reporter_fan_out_witness:
  "composite_set_process (map recorder [0, 1]) ''x'' [] 123 ([] :: (nat \<times> nat invocation) list) =
     [(0, SetProcessCalled ''x'' [] 123), (1, SetProcessCalled ''x'' [] 123)]
   \<and> composite_report_span (map recorder [0, 1]) (7::nat) [] =
       [(0, ReportSpanCalled 7), (1, ReportSpanCalled 7)]
   \<and> composite_close (map recorder [0, 1]) ([] :: (nat \<times> nat invocation) list) =
       [(0, CloseCalled), (1, CloseCalled)]
   \<and> joined (foldl settle (replicate 2 Pending) []) = Pending
   \<and> joined (foldl settle (replicate 2 Pending) [(1, Failed)]) = Pending
   \<and> joined (foldl settle (replicate 2 Pending) [(1, Failed), (0, Resolved)]) = Failed
   \<and> joined (foldl settle (replicate 2 Pending) [(0, Resolved), (1, Resolved)]) = Resolved"
  using composite_reporter_fan_out [of "map recorder [0, 1]" "''x''" "[]" 123
      "[] :: (nat \<times> nat invocation) list" "7::nat" "[0, 1]" "[]"
      "foldl settle (replicate 2 Pending) [(1, Failed), (0, Resolved)]" 2
      "[(0, Resolved), (1, Resolved)]"]
  by (simp add: recorder_def joined_def numeral_2_eq_2)

end
